theory Spec2Isabelle
  imports Main "HOL-Library.Char_ord"
begin

section \<open>Go strings\<close>

text \<open>
  A Go string is a sequence of bytes; it is modelled as a \<open>string\<close>, each \<open>char\<close> one
  byte. Text that is not ASCII is UTF-8, several bytes to a code point.
\<close>

definition HasPrefix :: "string \<Rightarrow> string \<Rightarrow> bool" where
  "HasPrefix s pre = (length pre \<le> length s \<and> take (length pre) s = pre)"

text \<open>
  \<open>strings.Fields\<close> splits around runs of white space as \<open>unicode.IsSpace\<close> defines it:
  the code points U+0009..U+000D, U+0020, U+0085, U+00A0, U+1680, U+2000..U+200A, U+2028,
  U+2029, U+202F, U+205F and U+3000. The table holds their UTF-8 encodings. No entry
  starts with a continuation byte (0x80..0xBF), so an entry found at any byte offset of a
  string is a white space rune of Go's decoding of it.
\<close>

definition whiteSpace :: "string list" where
  "whiteSpace =
    [[CHR 0x09], [CHR 0x0A], [CHR 0x0B], [CHR 0x0C], [CHR 0x0D], [CHR 0x20],
     [CHR 0xC2, CHR 0x85], [CHR 0xC2, CHR 0xA0],
     [CHR 0xE1, CHR 0x9A, CHR 0x80],
     [CHR 0xE2, CHR 0x80, CHR 0x80], [CHR 0xE2, CHR 0x80, CHR 0x81],
     [CHR 0xE2, CHR 0x80, CHR 0x82], [CHR 0xE2, CHR 0x80, CHR 0x83],
     [CHR 0xE2, CHR 0x80, CHR 0x84], [CHR 0xE2, CHR 0x80, CHR 0x85],
     [CHR 0xE2, CHR 0x80, CHR 0x86], [CHR 0xE2, CHR 0x80, CHR 0x87],
     [CHR 0xE2, CHR 0x80, CHR 0x88], [CHR 0xE2, CHR 0x80, CHR 0x89],
     [CHR 0xE2, CHR 0x80, CHR 0x8A],
     [CHR 0xE2, CHR 0x80, CHR 0xA8], [CHR 0xE2, CHR 0x80, CHR 0xA9],
     [CHR 0xE2, CHR 0x80, CHR 0xAF],
     [CHR 0xE2, CHR 0x81, CHR 0x9F],
     [CHR 0xE3, CHR 0x80, CHR 0x80]]"

text \<open>The number of bytes of the white space rune a string starts with, 0 when it
  starts with none.\<close>

definition spaceWidth :: "string \<Rightarrow> nat" where
  "spaceWidth s = (case filter (HasPrefix s) whiteSpace of [] \<Rightarrow> 0 | w # _ \<Rightarrow> length w)"

text \<open>
  The scan of \<open>strings.Fields\<close>: \<open>cur\<close> is the field being read (empty between
  fields), a white space rune closes it.
\<close>

function fieldsFrom :: "string \<Rightarrow> string \<Rightarrow> string list" where
  "fieldsFrom cur [] = (if cur = [] then [] else [cur])"
| "fieldsFrom cur (c # cs) =
     (if spaceWidth (c # cs) = 0 then fieldsFrom (cur @ [c]) cs
      else (if cur = [] then [] else [cur]) @ fieldsFrom [] (drop (spaceWidth (c # cs)) (c # cs)))"
  by pat_completeness auto
termination
  by (relation "measure (\<lambda>(cur, s). length s)") auto

definition Fields :: "string \<Rightarrow> string list" where
  "Fields s = fieldsFrom [] s"

fun Join :: "string list \<Rightarrow> string \<Rightarrow> string" where
  "Join [] sep = []"
| "Join [x] sep = x"
| "Join (x # y # ys) sep = x @ sep @ Join (y # ys) sep"

text \<open>\<open>strings.Split\<close> for a separator of one byte: the pieces between its
  occurrences, one more piece than there are separators.\<close>

fun Split :: "string \<Rightarrow> char \<Rightarrow> string list" where
  "Split [] sep = [[]]"
| "Split (c # cs) sep =
     (if c = sep then [] # Split cs sep
      else (case Split cs sep of [] \<Rightarrow> [[c]] | p # ps \<Rightarrow> (c # p) # ps))"

text \<open>
  \<open>strings.ToLower\<close> maps each rune to its lower case. On bytes: an ASCII capital
  becomes its small letter; U+0130 (bytes C4 B0) becomes \<open>i\<close> and U+212A (bytes E2 84 AA)
  becomes \<open>k\<close>, the two runes outside ASCII whose lower case is an ASCII letter. Every
  other rune outside ASCII stays outside ASCII; its bytes are kept here as they are, which
  changes no comparison of the result with an ASCII string.
\<close>

definition lowerASCII :: "char \<Rightarrow> char" where
  "lowerASCII c =
     (case map_of (zip ''ABCDEFGHIJKLMNOPQRSTUVWXYZ'' ''abcdefghijklmnopqrstuvwxyz'') c of
        Some l \<Rightarrow> l
      | None \<Rightarrow> c)"

fun ToLower :: "string \<Rightarrow> string" where
  "ToLower [] = []"
| "ToLower (c # cs) =
     (if c = CHR 0xC4 \<and> take 1 cs = [CHR 0xB0] then CHR ''i'' # ToLower (drop 1 cs)
      else if c = CHR 0xE2 \<and> take 2 cs = [CHR 0x84, CHR 0xAA] then CHR ''k'' # ToLower (drop 2 cs)
      else lowerASCII c # ToLower cs)"

section \<open>strconv.ParseInt with base 0 and 64 bits\<close>

text \<open>
  The \<open>flag\<close> package sets an \<open>int\<close> flag with \<open>strconv.ParseInt(s, 0, strconv.IntSize)\<close>;
  \<open>int\<close> has 64 bits here. Base 0 reads the base from the prefix (\<open>0b\<close>, \<open>0o\<close>, \<open>0x\<close>, a
  leading \<open>0\<close> for octal, decimal otherwise) and allows underscores between digits.
\<close>

datatype numError = ErrSyntax | ErrRange

definition maxUint64 :: nat where
  "maxUint64 = 2 ^ 64 - 1"

text \<open>The value of a digit byte: \<open>0\<close>..\<open>9\<close>, and a letter of either case from 10 on
  (the source lowers the byte with \<open>c | 0x20\<close> and compares with \<open>a\<close>..\<open>z\<close>).\<close>

definition digitVal :: "char \<Rightarrow> nat option" where
  "digitVal c =
     (if CHR ''0'' \<le> c \<and> c \<le> CHR ''9'' then Some (of_char c - 48)
      else if CHR ''a'' \<le> c \<and> c \<le> CHR ''z'' then Some (of_char c - 97 + 10)
      else if CHR ''A'' \<le> c \<and> c \<le> CHR ''Z'' then Some (of_char c - 65 + 10)
      else None)"

text \<open>The digit loop of \<open>ParseUint\<close>: the value so far and whether an underscore was seen.\<close>

fun uintLoop :: "nat \<Rightarrow> nat \<Rightarrow> bool \<Rightarrow> string \<Rightarrow> numError + (nat \<times> bool)" where
  "uintLoop base n us [] = Inr (n, us)"
| "uintLoop base n us (c # cs) =
     (if c = CHR ''_'' then uintLoop base n True cs
      else (case digitVal c of
              None \<Rightarrow> Inl ErrSyntax
            | Some d \<Rightarrow>
                if base \<le> d then Inl ErrSyntax
                else if maxUint64 div base + 1 \<le> n then Inl ErrRange
                else if maxUint64 < n * base + d then Inl ErrRange
                else uintLoop base (n * base + d) us cs))"

text \<open>\<open>underscoreOK\<close>: underscores only between digits, or between the base prefix and
  a digit. \<open>saw\<close> is the last character seen.\<close>

datatype saw = SawStart | SawDigit | SawUnderscore | SawOther

fun underscoreScan :: "bool \<Rightarrow> saw \<Rightarrow> string \<Rightarrow> bool" where
  "underscoreScan hex sw [] = (sw \<noteq> SawUnderscore)"
| "underscoreScan hex sw (c # cs) =
     (if CHR ''0'' \<le> c \<and> c \<le> CHR ''9''
         \<or> hex \<and> (CHR ''a'' \<le> c \<and> c \<le> CHR ''f'' \<or> CHR ''A'' \<le> c \<and> c \<le> CHR ''F'')
      then underscoreScan hex SawDigit cs
      else if c = CHR ''_'' then (if sw \<noteq> SawDigit then False else underscoreScan hex SawUnderscore cs)
      else if sw = SawUnderscore then False
      else underscoreScan hex SawOther cs)"

definition underscoreOK :: "string \<Rightarrow> bool" where
  "underscoreOK s0 =
     (let s = (if s0 \<noteq> [] \<and> (hd s0 = CHR ''-'' \<or> hd s0 = CHR ''+'') then tl s0 else s0)
      in if 2 \<le> length s \<and> hd s = CHR ''0'' \<and> s ! 1 \<in> set ''bBoOxX''
         then underscoreScan (s ! 1 \<in> set ''xX'') SawDigit (drop 2 s)
         else underscoreScan False SawStart s)"

definition ParseUint :: "string \<Rightarrow> numError + nat" where
  "ParseUint s =
     (if s = [] then Inl ErrSyntax
      else let (base, ds) =
                 (if hd s = CHR ''0'' then
                    (if 3 \<le> length s \<and> s ! 1 \<in> set ''bB'' then (2, drop 2 s)
                     else if 3 \<le> length s \<and> s ! 1 \<in> set ''oO'' then (8, drop 2 s)
                     else if 3 \<le> length s \<and> s ! 1 \<in> set ''xX'' then (16, drop 2 s)
                     else (8, drop 1 s))
                  else (10, s))
           in (case uintLoop base 0 False ds of
                 Inl e \<Rightarrow> Inl e
               | Inr (n, us) \<Rightarrow> if us \<and> \<not> underscoreOK s then Inl ErrSyntax else Inr n))"

definition ParseInt :: "string \<Rightarrow> numError + int" where
  "ParseInt s0 =
     (if s0 = [] then Inl ErrSyntax
      else let neg = (hd s0 = CHR ''-'');
               s = (if hd s0 = CHR ''+'' \<or> hd s0 = CHR ''-'' then tl s0 else s0)
           in (case ParseUint s of
                 Inl e \<Rightarrow> Inl e
               | Inr un \<Rightarrow>
                   if \<not> neg \<and> 2 ^ 63 \<le> un then Inl ErrRange
                   else if neg \<and> 2 ^ 63 < un then Inl ErrRange
                   else Inr (if neg then - int un else int un)))"

section \<open>The flag set of parseDuration\<close>

text \<open>
  \<open>parseDuration\<close> declares three \<open>int\<close> flags, \<open>h\<close>, \<open>m\<close> and \<open>s\<close> (usage texts Hours,
  Minutes, Seconds), each 0 until set. \<open>Parse\<close> follows \<open>flag.FlagSet.Parse\<close> with
  \<open>ContinueOnError\<close>: \<open>parseOne\<close> reads one flag and its value from the front of the
  arguments and reports whether it saw one; the loop stops without an error at the first
  argument that is not a flag, and what is left stays unread.
\<close>

record flagValues =
  Hours :: int
  Minutes :: int
  Seconds :: int

datatype parseError =
    BadFlagSyntax string
  | ErrHelp
  | FlagNotDefined string
  | FlagNeedsArgument string
  | InvalidValue string string numError
  | NegativeValues

definition formal :: "string \<Rightarrow> bool" where
  "formal name = (name = ''h'' \<or> name = ''m'' \<or> name = ''s'')"

definition setFlag :: "string \<Rightarrow> int \<Rightarrow> flagValues \<Rightarrow> flagValues" where
  "setFlag name v fv =
     (if name = ''h'' then fv\<lparr>Hours := v\<rparr>
      else if name = ''m'' then fv\<lparr>Minutes := v\<rparr>
      else fv\<lparr>Seconds := v\<rparr>)"

text \<open>A flag written \<open>name=value\<close>: the split at the first \<open>=\<close> after the first
  character of the name.\<close>

definition splitEquals :: "string \<Rightarrow> string \<times> string option" where
  "splitEquals name =
     (case name of
        [] \<Rightarrow> (name, None)
      | c # cs \<Rightarrow>
          if CHR ''='' \<in> set cs
          then (c # takeWhile (\<lambda>x. x \<noteq> CHR ''='') cs, Some (tl (dropWhile (\<lambda>x. x \<noteq> CHR ''='') cs)))
          else (name, None))"

definition parseOne :: "flagValues \<Rightarrow> string list \<Rightarrow> parseError + (bool \<times> flagValues \<times> string list)" where
  "parseOne fv args =
     (case args of
        [] \<Rightarrow> Inr (False, fv, [])
      | s # rest \<Rightarrow>
          if length s < 2 \<or> hd s \<noteq> CHR ''-'' then Inr (False, fv, args)
          else if s = ''--'' then Inr (False, fv, rest)
          else let name0 = drop (if s ! 1 = CHR ''-'' then 2 else 1) s in
            if name0 = [] \<or> hd name0 = CHR ''-'' \<or> hd name0 = CHR ''='' then Inl (BadFlagSyntax s)
            else let (name, inline) = splitEquals name0 in
              if \<not> formal name then
                (if name = ''help'' \<or> name = ''h'' then Inl ErrHelp else Inl (FlagNotDefined name))
              else (case (inline, rest) of
                      (None, []) \<Rightarrow> Inl (FlagNeedsArgument name)
                    | (None, v # rest') \<Rightarrow>
                        (case ParseInt v of
                           Inl e \<Rightarrow> Inl (InvalidValue v name e)
                         | Inr n \<Rightarrow> Inr (True, setFlag name n fv, rest'))
                    | (Some v, _) \<Rightarrow>
                        (case ParseInt v of
                           Inl e \<Rightarrow> Inl (InvalidValue v name e)
                         | Inr n \<Rightarrow> Inr (True, setFlag name n fv, rest))))"

lemma parseOne_seen_shorter:
  "parseOne fv args = Inr (True, fv', rest) \<Longrightarrow> length rest < length args"
  by (auto simp: parseOne_def Let_def split: list.splits if_splits prod.splits option.splits sum.splits)

function Parse :: "flagValues \<Rightarrow> string list \<Rightarrow> parseError + (flagValues \<times> string list)" where
  "Parse fv args =
     (case parseOne fv args of
        Inl e \<Rightarrow> Inl e
      | Inr (seen, fv', rest) \<Rightarrow> if seen then Parse fv' rest else Inr (fv', rest))"
  by pat_completeness auto
termination
  by (relation "measure (\<lambda>(fv, args). length args)") (auto dest: parseOne_seen_shorter)

declare Parse.simps [simp del]

section \<open>time.Duration\<close>

text \<open>
  A \<open>time.Duration\<close> is an \<open>int64\<close> count of nanoseconds. It is modelled as an \<open>int\<close>
  within the 64-bit range; \<open>wrap64\<close> is the wrap-around of \<open>int64\<close> arithmetic.
\<close>

type_synonym Duration = int

definition wrap64 :: "int \<Rightarrow> int" where
  "wrap64 x = (x + 2 ^ 63) mod 2 ^ 64 - 2 ^ 63"

definition Second :: Duration where "Second = 1000000000"
definition Minute :: Duration where "Minute = 60 * Second"
definition Hour :: Duration where "Hour = 60 * Minute"

definition maxDuration :: Duration where "maxDuration = 2 ^ 63 - 1"
definition minDuration :: Duration where "minDuration = - (2 ^ 63)"

section \<open>parseDuration\<close>

definition noFlags :: flagValues where
  "noFlags = \<lparr>Hours = 0, Minutes = 0, Seconds = 0\<rparr>"

definition parseDuration :: "string \<Rightarrow> parseError + Duration" where
  "parseDuration input =
     (case Parse noFlags (Fields input) of
        Inl err \<Rightarrow> Inl err
      | Inr (fv, rest) \<Rightarrow>
          if Hours fv < 0 \<or> Minutes fv < 0 \<or> Seconds fv < 0 then Inl NegativeValues
          else Inr (wrap64 (wrap64 (wrap64 (Hours fv * Hour) + wrap64 (Minutes fv * Minute))
                            + wrap64 (Seconds fv * Second))))"

section \<open>processCommand\<close>

record Task =
  Name :: string
  Duration :: Duration

text \<open>
  What \<open>processCommand\<close> does with a line, named by the message it prints:
  \<open>Exit\<close> (Exiting..., then \<open>os.Exit(0)\<close>), \<open>UnknownCommand\<close> (Unknown command. Use
  add <task> [flags] or exit), \<open>InvalidFormat\<close> (Invalid command format. Use: add
  <task name> [flags]), \<open>DurationError\<close> (Error parsing duration: ...),
  \<open>NonPositiveDuration\<close> (Duration must be positive), \<open>Added\<close> (Added task: ...,
  after the task is appended to the queue). \<open>Panics\<close> stands for the run-time panic of
  slicing \<open>strings.Fields(cmd)[1:]\<close> when there is no field.
\<close>

datatype action =
    Exit
  | UnknownCommand
  | InvalidFormat
  | DurationError parseError
  | NonPositiveDuration
  | Added Task
  | Panics

text \<open>The loop that looks for the first argument starting with \<open>-\<close>: \<open>flagsIndex\<close> is
  declared without a value, so it is 0 when the loop finds none.\<close>

fun scanFlags :: "nat \<Rightarrow> string list \<Rightarrow> nat" where
  "scanFlags i [] = 0"
| "scanFlags i (arg # rest) = (if HasPrefix arg ''-'' then i else scanFlags (Suc i) rest)"

definition processCommand :: "string \<Rightarrow> Task list \<Rightarrow> action \<times> Task list" where
  "processCommand cmd taskQueue =
     (if ToLower cmd = ''exit'' then (Exit, taskQueue)
      else if \<not> HasPrefix cmd ''add '' then (UnknownCommand, taskQueue)
      else (case Fields cmd of
              [] \<Rightarrow> (Panics, taskQueue)
            | _ # args \<Rightarrow>
                let flagsIndex = scanFlags 0 args in
                if flagsIndex = 0 then (InvalidFormat, taskQueue)
                else let taskName = Join (take flagsIndex args) '' '';
                         durationStr = Join (drop flagsIndex args) '' ''
                     in (case parseDuration durationStr of
                           Inl err \<Rightarrow> (DurationError err, taskQueue)
                         | Inr duration \<Rightarrow>
                             if duration \<le> 0 then (NonPositiveDuration, taskQueue)
                             else (Added \<lparr>Name = taskName, Duration = duration\<rparr>,
                                   taskQueue @ [\<lparr>Name = taskName, Duration = duration\<rparr>]))))"

section \<open>Formatting and rounding a Duration\<close>

text \<open>\<open>fmtInt\<close> writes an unsigned number in decimal, \<open>0\<close> as one digit.\<close>

definition digitChar :: "nat \<Rightarrow> char" where
  "digitChar d = ''0123456789'' ! d"

fun fmtDigits :: "nat \<Rightarrow> string" where
  "fmtDigits v = (if v = 0 then [] else fmtDigits (v div 10) @ [digitChar (v mod 10)])"

declare fmtDigits.simps [simp del]

definition fmtInt :: "nat \<Rightarrow> string" where
  "fmtInt v = (if v = 0 then ''0'' else fmtDigits v)"

text \<open>
  \<open>fmtFrac\<close> writes the last \<open>prec\<close> decimal digits of \<open>v\<close> as a fraction, without
  trailing zeros and without the point when the fraction is 0, and returns \<open>v\<close> divided
  by \<open>10 ^ prec\<close>. The loop goes from the last digit to the first; \<open>pr\<close> says whether a
  digit other than 0 was met.
\<close>

fun fracLoop :: "nat \<Rightarrow> nat \<Rightarrow> bool \<Rightarrow> string \<Rightarrow> string \<times> nat \<times> bool" where
  "fracLoop prec v pr buf =
     (if prec = 0 then (buf, v, pr)
      else let digit = v mod 10; pr' = (pr \<or> digit \<noteq> 0)
           in fracLoop (prec - 1) (v div 10) pr' (if pr' then digitChar digit # buf else buf))"

declare fracLoop.simps [simp del]

definition fmtFrac :: "nat \<Rightarrow> nat \<Rightarrow> string \<times> nat" where
  "fmtFrac v prec =
     (case fracLoop prec v False [] of (buf, v', pr) \<Rightarrow> (if pr then CHR ''.'' # buf else buf, v'))"

text \<open>
  \<open>Duration.String\<close>: below one second in \<open>ns\<close>, \<open>\<mu>s\<close> (the micro sign is the bytes C2 B5)
  or \<open>ms\<close>; from one second on as hours, minutes and seconds, the leading units left out
  when they are 0.
\<close>

definition String :: "Duration \<Rightarrow> string" where
  "String d =
     (let u = nat \<bar>d\<bar>;
          body =
            (if u < 1000000000 then
               (if u = 0 then ''0s''
                else if u < 1000 then fmtInt u @ ''ns''
                else if u < 1000000 then
                  (case fmtFrac u 3 of (frac, u') \<Rightarrow> fmtInt u' @ frac @ [CHR 0xC2, CHR 0xB5] @ ''s'')
                else (case fmtFrac u 6 of (frac, u') \<Rightarrow> fmtInt u' @ frac @ ''ms''))
             else
               (case fmtFrac u 9 of (frac, secs) \<Rightarrow>
                  let mins = secs div 60; hrs = mins div 60
                  in (if 0 < mins then
                        (if 0 < hrs then fmtInt hrs @ ''h'' else []) @ fmtInt (mins mod 60) @ ''m''
                      else [])
                     @ fmtInt (secs mod 60) @ frac @ ''s''))
      in if d < 0 then CHR ''-'' # body else body)"

text \<open>
  \<open>Duration.Round\<close>: to the nearest multiple of \<open>m\<close>, halves away from zero; the
  remainder of Go's \<open>%\<close> has the sign of \<open>d\<close>; a result out of range is the largest or
  smallest Duration.
\<close>

definition Round :: "Duration \<Rightarrow> Duration \<Rightarrow> Duration" where
  "Round d m =
     (if m \<le> 0 then d
      else let r = \<bar>d\<bar> mod m in
        if d < 0 then
          (if r + r < m then wrap64 (d + r)
           else let d1 = wrap64 (d - m + r) in if d1 < d then d1 else minDuration)
        else
          (if r + r < m then wrap64 (d - r)
           else let d1 = wrap64 (d + m - r) in if d < d1 then d1 else maxDuration))"

section \<open>startTimer\<close>

text \<open>
  The timer prints a notice when it starts and one at each tick of its one-second ticker.
  The clock is an input: \<open>start\<close> is the instant \<open>time.Now()\<close> returns when the timer
  starts and \<open>ticks\<close> are the instants it returns at the ticks the loop receives, in
  nanoseconds. The loop ends at the first tick whose rounded remaining time is not
  positive; with no tick left it is still waiting.
\<close>

datatype notice =
    Starting string Duration
  | Remaining string Duration
  | Completed string

definition Until :: "int \<Rightarrow> int \<Rightarrow> Duration" where
  "Until endTime now = max minDuration (min maxDuration (endTime - now))"

fun timerLoop :: "string \<Rightarrow> int \<Rightarrow> int list \<Rightarrow> notice list" where
  "timerLoop task endTime [] = []"
| "timerLoop task endTime (now # ticks) =
     (let remaining = Round (Until endTime now) Second
      in if remaining \<le> 0 then [Completed task]
         else Remaining task remaining # timerLoop task endTime ticks)"

definition startTimer :: "string \<Rightarrow> Duration \<Rightarrow> int \<Rightarrow> int list \<Rightarrow> notice list" where
  "startTimer task duration start ticks =
     Starting task (Round duration Second) # timerLoop task (start + duration) ticks"

section \<open>The history file\<close>

text \<open>
  The instant \<open>time.Now()\<close> returns when a record is written, in local civil time, and
  its layout \<open>2006-01-02 15:04:05\<close>: the year in at least four digits, the other fields
  in at least two, zero-padded.
\<close>

record civil =
  tYear :: int
  tMonth :: nat
  tDay :: nat
  tHour :: nat
  tMinute :: nat
  tSecond :: nat

definition appendInt :: "int \<Rightarrow> nat \<Rightarrow> string" where
  "appendInt x width =
     (let ds = fmtInt (nat \<bar>x\<bar>)
      in (if x < 0 then ''-'' else []) @ replicate (width - length ds) (CHR ''0'') @ ds)"

definition Format :: "civil \<Rightarrow> string" where
  "Format t =
     appendInt (tYear t) 4 @ ''-'' @ appendInt (int (tMonth t)) 2 @ ''-'' @ appendInt (int (tDay t)) 2
     @ '' '' @ appendInt (int (tHour t)) 2 @ '':'' @ appendInt (int (tMinute t)) 2
     @ '':'' @ appendInt (int (tSecond t)) 2"

text \<open>
  The file \<open>timer_history.log\<close>: missing, present but refused when opened, or present
  with its bytes. A write either succeeds or fails after some of its bytes.
\<close>

datatype logFile = Missing | Denied | Content string

datatype writeOutcome = Written | WriteFails nat

datatype ioError = OpenError | WriteError | ErrTooLong

definition entry :: "Task \<Rightarrow> civil \<Rightarrow> string" where
  "entry task now = Name task @ ''|'' @ String (Duration task) @ ''|'' @ Format now @ [CHR 0x0A]"

definition logHistory :: "Task \<Rightarrow> civil \<Rightarrow> writeOutcome \<Rightarrow> logFile \<Rightarrow> logFile \<times> ioError option" where
  "logHistory task now out f =
     (case f of
        Denied \<Rightarrow> (Denied, Some OpenError)
      | _ \<Rightarrow>
          let old = (case f of Content c \<Rightarrow> c | _ \<Rightarrow> [])
          in (case out of
                Written \<Rightarrow> (Content (old @ entry task now), None)
              | WriteFails k \<Rightarrow> (Content (old @ take k (entry task now)), Some WriteError)))"

text \<open>
  \<open>bufio.Scanner\<close> with its default split function \<open>ScanLines\<close>: the lines between
  newline bytes, a last line without a newline when it is not empty, each without one
  trailing carriage return. A line of 65536 bytes or more does not fit the scanner's
  buffer: the scan stops there with \<open>ErrTooLong\<close>.
\<close>

fun rawLines :: "string \<Rightarrow> string \<Rightarrow> string list" where
  "rawLines cur [] = (if cur = [] then [] else [cur])"
| "rawLines cur (c # cs) = (if c = CHR 0x0A then cur # rawLines [] cs else rawLines (cur @ [c]) cs)"

definition dropCR :: "string \<Rightarrow> string" where
  "dropCR l = (if l \<noteq> [] \<and> last l = CHR 0x0D then butlast l else l)"

definition maxScanTokenSize :: nat where
  "maxScanTokenSize = 65536"

fun scanTokens :: "string list \<Rightarrow> string list \<times> ioError option" where
  "scanTokens [] = ([], None)"
| "scanTokens (l # ls) =
     (if maxScanTokenSize \<le> length l then ([], Some ErrTooLong)
      else (case scanTokens ls of (ts, e) \<Rightarrow> (dropCR l # ts, e)))"

definition scanLines :: "string \<Rightarrow> string list \<times> ioError option" where
  "scanLines data = scanTokens (rawLines [] data)"

text \<open>\<open>showHistory\<close> returns what it prints and its error. A line that does not split
  into three parts at \<open>|\<close> prints nothing.\<close>

definition showRecord :: "string \<Rightarrow> string" where
  "showRecord l =
     (let parts = Split l (CHR ''|'')
      in if length parts \<noteq> 3 then []
         else ''Task: '' @ parts ! 0 @ [CHR 0x0A] @ ''Duration: '' @ parts ! 1 @ [CHR 0x0A]
              @ ''Completed: '' @ parts ! 2 @ [CHR 0x0A, CHR 0x0A])"

definition historyHeader :: string where
  "historyHeader =
     [CHR 0x0A] @ ''Task History:'' @ [CHR 0x0A]
     @ ''----------------------------------------'' @ [CHR 0x0A]"

definition showHistory :: "logFile \<Rightarrow> string \<times> ioError option" where
  "showHistory f =
     (case f of
        Missing \<Rightarrow> (''No history available'' @ [CHR 0x0A], None)
      | Denied \<Rightarrow> ([], Some OpenError)
      | Content data \<Rightarrow>
          (case scanLines data of (ls, e) \<Rightarrow> (historyHeader @ concat (map showRecord ls), e)))"

section \<open>The main loop\<close>

text \<open>
  Only the main goroutine reads and writes the queue: it runs \<open>processCommand\<close> and it
  pops. The reader goroutine and the timer goroutine reach it through the channels
  \<open>cmdCh\<close> and \<open>done\<close> alone, so a run of \<open>main\<close> is fixed by what its \<open>select\<close>
  statements receive, in order: a line, the closing of \<open>cmdCh\<close>, the closing of \<open>done\<close>
  by the timer goroutine when \<open>startTimer\<close> has returned, or nothing (the \<open>default\<close>
  branch of the idle \<open>select\<close>, a sleep of 100 ms). The clock and the outcome of the
  write at the \<open>n\<close>-th pop are inputs too.
\<close>

datatype event = Line string | Closed | TimerDone | NoInput

datatype observation =
    Started Task
  | Logged Task bool
  | Handled action
  | Finished Task
  | Returned

record world =
  nowAt :: "nat \<Rightarrow> civil"
  writeAt :: "nat \<Rightarrow> writeOutcome"

record state =
  queue :: "Task list"
  active :: "Task option"
  stopped :: bool
  trace :: "observation list"
  history :: logFile
  pops :: nat

definition initial :: "logFile \<Rightarrow> state" where
  "initial f = \<lparr>queue = [], active = None, stopped = False, trace = [], history = f, pops = 0\<rparr>"

text \<open>The top of the loop with a task waiting: pop the head, start its timer in a
  goroutine, log it, and wait in the inner loop.\<close>

definition nextTask :: "world \<Rightarrow> state \<Rightarrow> state" where
  "nextTask w s =
     (if stopped s then s
      else (case queue s of
              [] \<Rightarrow> s
            | task # rest \<Rightarrow>
                (case logHistory task (nowAt w (pops s)) (writeAt w (pops s)) (history s) of
                   (f, err) \<Rightarrow>
                     s\<lparr>queue := rest, active := Some task,
                       trace := trace s @ [Started task, Logged task (err = None)],
                       history := f, pops := Suc (pops s)\<rparr>)))"

definition dispatch :: "string \<Rightarrow> state \<Rightarrow> state" where
  "dispatch cmd s =
     (case processCommand cmd (queue s) of
        (a, q) \<Rightarrow> s\<lparr>queue := q, trace := trace s @ [Handled a], stopped := (a = Exit \<or> a = Panics)\<rparr>)"

definition step :: "world \<Rightarrow> state \<Rightarrow> event \<Rightarrow> state" where
  "step w s e =
     (if stopped s then s
      else (case active s of
              Some task \<Rightarrow>
                (case e of
                   Line cmd \<Rightarrow> dispatch cmd s
                 | Closed \<Rightarrow> s\<lparr>stopped := True, trace := trace s @ [Returned]\<rparr>
                 | TimerDone \<Rightarrow> nextTask w (s\<lparr>active := None, trace := trace s @ [Finished task]\<rparr>)
                 | NoInput \<Rightarrow> s)
            | None \<Rightarrow>
                (case e of
                   Line cmd \<Rightarrow> nextTask w (dispatch cmd s)
                 | Closed \<Rightarrow> s\<lparr>stopped := True, trace := trace s @ [Returned]\<rparr>
                 | TimerDone \<Rightarrow> s
                 | NoInput \<Rightarrow> s)))"

definition run :: "world \<Rightarrow> logFile \<Rightarrow> event list \<Rightarrow> state" where
  "run w f evs = foldl (step w) (initial f) evs"


fun accepted :: "observation list \<Rightarrow> Task list" where
  "accepted [] = []"
| "accepted (Handled (Added t) # obs) = t # accepted obs"
| "accepted (_ # obs) = accepted obs"

section \<open>Fields\<close>

text \<open>A field holds no white space rune, at any offset, and is not empty.\<close>

fun noSpace :: "string \<Rightarrow> bool" where
  "noSpace [] = True"
| "noSpace (c # cs) = (spaceWidth (c # cs) = 0 \<and> noSpace cs)"

definition isField :: "string \<Rightarrow> bool" where
  "isField t = (t \<noteq> [] \<and> noSpace t)"

section \<open>Flags written out\<close>

text \<open>
  To state what \<open>parseDuration\<close> returns on flags as a user types them: \<open>Itoa\<close> is the
  decimal numeral of an integer, \<open>flagTokens\<close> the tokens \<open>-f v\<close> of a list of flag names
  and values, and \<open>assigned\<close> sets the flags of the list in order, a later value of a
  flag replacing an earlier one.
\<close>

definition Itoa :: "int \<Rightarrow> string" where
  "Itoa v = (if v < 0 then CHR ''-'' # fmtInt (nat (- v)) else fmtInt (nat v))"

definition flagTokens :: "(string \<times> int) list \<Rightarrow> string list" where
  "flagTokens as = concat (map (\<lambda>(f, v). [CHR ''-'' # f, Itoa v]) as)"

definition assigned :: "flagValues \<Rightarrow> (string \<times> int) list \<Rightarrow> flagValues" where
  "assigned fv as = foldl (\<lambda>fv (f, v). setFlag f v fv) fv as"

section \<open>The order of a trace\<close>









text \<open>A clock and a history file for the examples: every write succeeds.\<close>

definition exampleWorld :: world where
  "exampleWorld =
     \<lparr>nowAt = (\<lambda>n. \<lparr>tYear = 2024, tMonth = 3, tDay = 9, tHour = 7, tMinute = 5, tSecond = 0\<rparr>),
      writeAt = (\<lambda>n. Written)\<rparr>"

text \<open>The remaining times a timer showed, in order.\<close>

fun remainings :: "notice list \<Rightarrow> Duration list" where
  "remainings [] = []"
| "remainings (Remaining task d # ns) = d # remainings ns"
| "remainings (_ # ns) = remainings ns"

section \<open>Evaluation\<close>

text \<open>The defining equations that compute a model function on a concrete input.\<close>

lemmas string_eval = Fields_def spaceWidth_def whiteSpace_def HasPrefix_def lowerASCII_def

lemmas number_eval = ParseInt_def ParseUint_def digitVal_def maxUint64_def underscoreOK_def

lemmas flag_eval = Parse.simps parseOne_def splitEquals_def formal_def setFlag_def noFlags_def

lemmas duration_eval = wrap64_def Second_def Minute_def Hour_def maxDuration_def minDuration_def

lemmas format_eval = String_def fmtInt_def fmtFrac_def fracLoop.simps fmtDigits.simps digitChar_def

section \<open>Splitting into fields and joining them again\<close>

lemma HasPrefix_append: "HasPrefix s w = (\<exists>r. s = w @ r)"
  unfolding HasPrefix_def
  by (metis append_eq_conv_conj append_take_drop_id length_append le_add1)

lemma spaceWidth_zero_iff: "spaceWidth s = 0 \<longleftrightarrow> (\<forall>w \<in> set whiteSpace. \<not> HasPrefix s w)"
proof -
  have ne: "\<forall>w \<in> set whiteSpace. w \<noteq> []" by (simp add: whiteSpace_def)
  show ?thesis
  proof (cases "filter (HasPrefix s) whiteSpace")
    case Nil
    then show ?thesis by (simp add: spaceWidth_def filter_empty_conv)
  next
    case (Cons w ws)
    then have "w \<in> set (filter (HasPrefix s) whiteSpace)" by simp
    then have "w \<in> set whiteSpace" "HasPrefix s w" by auto
    with ne Cons show ?thesis by (auto simp: spaceWidth_def)
  qed
qed

lemma spaceWidth_append_zero: "spaceWidth (u @ r) = 0 \<Longrightarrow> spaceWidth u = 0"
  unfolding spaceWidth_zero_iff HasPrefix_append by auto

lemma whiteSpace_tl_no_blank: "w \<in> set whiteSpace \<Longrightarrow> CHR '' '' \<notin> set (tl w)"
  by (auto simp: whiteSpace_def)

lemma spaceWidth_before_blank:
  assumes "spaceWidth u = 0" "u \<noteq> []"
  shows "spaceWidth (u @ CHR '' '' # r) = 0"
  unfolding spaceWidth_zero_iff
proof
  fix w assume w: "w \<in> set whiteSpace"
  show "\<not> HasPrefix (u @ CHR '' '' # r) w"
  proof
    assume "HasPrefix (u @ CHR '' '' # r) w"
    then obtain x where x: "u @ CHR '' '' # r = w @ x" by (auto simp: HasPrefix_append)
    from assms(1) w have nu: "\<not> HasPrefix u w" by (simp add: spaceWidth_zero_iff)
    from x obtain us where us: "u = w @ us \<or> (w = u @ us \<and> CHR '' '' # r = us @ x)"
      by (auto simp: append_eq_append_conv2)
    then consider y where "u = w @ y" | y where "w = u @ y" "y \<noteq> []"
      by (cases "us = []") auto
    then show False
    proof cases
      case 1 with nu show ?thesis by (auto simp: HasPrefix_append)
    next
      case 2
      with x have "hd y = CHR '' ''" by (cases y) auto
      with 2 assms(2) have "CHR '' '' \<in> set (tl w)" by (cases u; cases y) auto
      with w show ?thesis by (simp add: whiteSpace_tl_no_blank)
    qed
  qed
qed

lemma spaceWidth_blank: "spaceWidth (CHR '' '' # r) = 1"
  by (simp add: spaceWidth_def whiteSpace_def HasPrefix_def)

lemma fieldsFrom_field_blank:
  "noSpace t \<Longrightarrow> fieldsFrom cur (t @ CHR '' '' # r) = (if cur @ t = [] then [] else [cur @ t]) @ fieldsFrom [] r"
proof (induction t arbitrary: cur)
  case Nil
  then show ?case by (simp add: spaceWidth_blank)
next
  case (Cons c t)
  then have "spaceWidth ((c # t) @ CHR '' '' # r) = 0"
    using spaceWidth_before_blank [of "c # t" r] by simp
  with Cons show ?case by simp
qed

lemma fieldsFrom_field:
  "noSpace t \<Longrightarrow> fieldsFrom cur t = (if cur @ t = [] then [] else [cur @ t])"
  by (induction t arbitrary: cur) auto

lemma Fields_Join:
  "\<forall>t \<in> set ts. isField t \<Longrightarrow> Fields (Join ts '' '') = ts"
proof (induction ts "'' ''" rule: Join.induct)
  case 1
  then show ?case by (simp add: Fields_def)
next
  case (2 x)
  then show ?case by (simp add: Fields_def isField_def fieldsFrom_field)
next
  case (3 x y ys)
  then show ?case by (simp add: Fields_def isField_def fieldsFrom_field_blank)
qed


lemma noSpace_iff: "noSpace t \<longleftrightarrow> (\<forall>i < length t. spaceWidth (drop i t) = 0)"
proof (induction t)
  case Nil
  then show ?case by simp
next
  case (Cons c t)
  show ?case
  proof
    assume a: "noSpace (c # t)"
    show "\<forall>i < length (c # t). spaceWidth (drop i (c # t)) = 0"
    proof (intro allI impI)
      fix i assume "i < length (c # t)"
      with a Cons show "spaceWidth (drop i (c # t)) = 0" by (cases i) auto
    qed
  next
    assume a: "\<forall>i < length (c # t). spaceWidth (drop i (c # t)) = 0"
    then have "spaceWidth (c # t) = 0" by fastforce
    moreover have "\<forall>i < length t. spaceWidth (drop i t) = 0"
    proof (intro allI impI)
      fix i assume "i < length t"
      with a have "spaceWidth (drop (Suc i) (c # t)) = 0" by (metis Suc_less_eq length_Cons)
      then show "spaceWidth (drop i t) = 0" by simp
    qed
    ultimately show "noSpace (c # t)" using Cons by simp
  qed
qed

lemma fieldsFrom_fields:
  "(\<forall>i < length cur. spaceWidth (drop i cur @ s) = 0) \<Longrightarrow> \<forall>t \<in> set (fieldsFrom cur s). isField t"
proof (induction cur s rule: fieldsFrom.induct)
  case (1 cur)
  then show ?case by (auto simp: isField_def noSpace_iff)
next
  case (2 cur c cs)
  show ?case
  proof (cases "spaceWidth (c # cs) = 0")
    case True
    have "\<forall>i < length (cur @ [c]). spaceWidth (drop i (cur @ [c]) @ cs) = 0"
    proof (intro allI impI)
      fix i assume "i < length (cur @ [c])"
      then consider "i < length cur" | "i = length cur" by fastforce
      then show "spaceWidth (drop i (cur @ [c]) @ cs) = 0"
        using "2.prems" True by cases auto
    qed
    with "2.IH"(1) True show ?thesis by simp
  next
    case False
    have "noSpace cur"
      unfolding noSpace_iff using "2.prems" spaceWidth_append_zero by blast
    moreover have "\<forall>t \<in> set (fieldsFrom [] (drop (spaceWidth (c # cs)) (c # cs))). isField t"
      using "2.IH"(2) False by simp
    ultimately show ?thesis using False by (auto simp: isField_def)
  qed
qed

lemma Fields_fields: "\<forall>t \<in> set (Fields s). isField t"
  unfolding Fields_def by (rule fieldsFrom_fields) simp

lemma Fields_add:
  assumes "HasPrefix cmd ''add ''"
  shows "Fields cmd = ''add'' # Fields (drop 4 cmd)"
proof -
  from assms obtain r where r: "cmd = ''add '' @ r" by (auto simp: HasPrefix_append)
  have a: "spaceWidth (CHR ''a'' # x) = 0" for x
    by (simp add: spaceWidth_def whiteSpace_def HasPrefix_def)
  have d: "spaceWidth (CHR ''d'' # x) = 0" for x
    by (simp add: spaceWidth_def whiteSpace_def HasPrefix_def)
  show ?thesis unfolding r Fields_def by (simp add: a d spaceWidth_blank)
qed

lemma ToLower_add:
  assumes "HasPrefix cmd ''add ''"
  shows "ToLower cmd \<noteq> ''exit''"
proof -
  from assms obtain r where r: "cmd = ''add '' @ r" by (auto simp: HasPrefix_append)
  show ?thesis unfolding r by (simp add: lowerASCII_def)
qed

lemma scanFlags_none:
  "\<forall>a \<in> set args. \<not> HasPrefix a ''-'' \<Longrightarrow> scanFlags k args = 0"
  by (induction args arbitrary: k) auto

lemma scanFlags_first:
  "i < length args \<Longrightarrow> HasPrefix (args ! i) ''-'' \<Longrightarrow> \<forall>j < i. \<not> HasPrefix (args ! j) ''-''
   \<Longrightarrow> scanFlags k args = k + i"
proof (induction args arbitrary: k i)
  case Nil
  then show ?case by simp
next
  case (Cons a args)
  show ?case
  proof (cases i)
    case 0
    with Cons.prems show ?thesis by simp
  next
    case (Suc n)
    with Cons.prems have "\<not> HasPrefix a ''-''" by fastforce
    moreover have "scanFlags (Suc k) args = Suc k + n"
    proof (rule Cons.IH)
      show "n < length args" using Cons.prems Suc by simp
      show "HasPrefix (args ! n) ''-''" using Cons.prems Suc by simp
      show "\<forall>j < n. \<not> HasPrefix (args ! j) ''-''"
      proof (intro allI impI)
        fix j assume "j < n"
        then have "Suc j < i" using Suc by simp
        with Cons.prems(3) have "\<not> HasPrefix ((a # args) ! Suc j) ''-''" by blast
        then show "\<not> HasPrefix (args ! j) ''-''" by simp
      qed
    qed
    ultimately show ?thesis using Suc by simp
  qed
qed

lemma processCommand_add:
  assumes "HasPrefix cmd ''add ''"
  shows "processCommand cmd q =
    (let args = Fields (drop 4 cmd); flagsIndex = scanFlags 0 args in
     if flagsIndex = 0 then (InvalidFormat, q)
     else (case parseDuration (Join (drop flagsIndex args) '' '') of
             Inl err \<Rightarrow> (DurationError err, q)
           | Inr d \<Rightarrow>
               if d \<le> 0 then (NonPositiveDuration, q)
               else (Added \<lparr>Name = Join (take flagsIndex args) '' '', Duration = d\<rparr>,
                     q @ [\<lparr>Name = Join (take flagsIndex args) '' '', Duration = d\<rparr>])))"
  using assms by (simp add: processCommand_def ToLower_add Fields_add Let_def)

section \<open>A name without flags\<close>

text \<open>
  C1. The claim: the line \<open>add X\<close>, with no token starting with \<open>-\<close>, has its duration
  parsed as 0 and is then refused as not positive. The code does not get that far: the
  loop of \<open>processCommand\<close> leaves \<open>flagsIndex\<close> at 0 when no token starts with \<open>-\<close>, the
  test \<open>flagsIndex == 0\<close> answers with the invalid-format message and returns before
  \<open>parseDuration\<close> is called. The empty flag text does parse as 0; no task is queued
  either way.
\<close>

theorem add_without_flags_is_invalid_format:
  "processCommand ''add X'' q = (InvalidFormat, q) \<and> parseDuration [] = Inr 0"
  by (simp add: processCommand_def parseDuration_def string_eval flag_eval duration_eval)

section \<open>The split of an add line into name and flags\<close>

text \<open>
  C2. For a line starting with \<open>add \<close> whose arguments (the fields after the first) have
  their first token starting with \<open>-\<close> at position \<open>i\<close>: when \<open>i = 0\<close> the line is
  refused with the invalid-format message, the answer the code gives to an empty name,
  and the queue is unchanged; when \<open>0 < i\<close> the name is the \<open>i\<close> tokens before it joined
  by single blanks, the duration parser reads exactly the tokens from \<open>i\<close> on, and its
  result decides between a parse error, a refusal of a duration that is not positive,
  and the task appended to the queue. The witness is the two lines of the claim:
  \<open>add Study Session -m 25\<close> queues Study Session for 25 minutes, \<open>add -m 5\<close> queues
  nothing.
\<close>

theorem add_splits_name_from_flags:
  assumes "HasPrefix cmd ''add ''"
    and "args = tl (Fields cmd)"
    and "i < length args"
    and "HasPrefix (args ! i) ''-''"
    and "\<forall>j < i. \<not> HasPrefix (args ! j) ''-''"
  shows "(i = 0 \<longrightarrow> processCommand cmd q = (InvalidFormat, q)) \<and>
         (0 < i \<longrightarrow>
            Fields (Join (drop i args) '' '') = drop i args \<and>
            processCommand cmd q =
              (case parseDuration (Join (drop i args) '' '') of
                 Inl err \<Rightarrow> (DurationError err, q)
               | Inr d \<Rightarrow>
                   if d \<le> 0 then (NonPositiveDuration, q)
                   else (Added \<lparr>Name = Join (take i args) '' '', Duration = d\<rparr>,
                         q @ [\<lparr>Name = Join (take i args) '' '', Duration = d\<rparr>])))"
proof -
  have args: "args = Fields (drop 4 cmd)"
    using assms(1,2) by (simp add: Fields_add)
  have idx: "scanFlags 0 args = i"
    using scanFlags_first [OF assms(3,4,5), of 0] by simp
  have "\<forall>t \<in> set args. isField t"
    unfolding args by (rule Fields_fields)
  then have "\<forall>t \<in> set (drop i args). isField t"
    by (meson in_set_dropD)
  then have again: "Fields (Join (drop i args) '' '') = drop i args"
    by (rule Fields_Join)
  note pc = processCommand_add [OF assms(1), of q, unfolded Let_def, folded args, unfolded idx]
  show ?thesis
    using pc again by simp
qed

lemma parseDuration_m_25: "parseDuration ''-m 25'' = Inr (25 * Minute)"
  by (simp add: parseDuration_def string_eval number_eval flag_eval duration_eval)

theorem add_splits_name_from_flags_witness:
  "processCommand ''add Study Session -m 25'' [] =
     (Added \<lparr>Name = ''Study Session'', Duration = 25 * Minute\<rparr>,
      [\<lparr>Name = ''Study Session'', Duration = 25 * Minute\<rparr>])
   \<and> processCommand ''add -m 5'' [] = (InvalidFormat, [])"
proof -
  have f1: "Fields ''add Study Session -m 25'' = [''add'', ''Study'', ''Session'', ''-m'', ''25'']"
    by (simp add: string_eval)
  have f2: "Fields ''add -m 5'' = [''add'', ''-m'', ''5'']"
    by (simp add: string_eval)
  have j: "\<forall>j < (2::nat). \<not> HasPrefix ([''Study'', ''Session'', ''-m'', ''25''] ! j) ''-''"
    by (simp add: HasPrefix_def less_Suc_eq numeral_2_eq_2)
  have "processCommand ''add Study Session -m 25'' [] =
     (Added \<lparr>Name = ''Study Session'', Duration = 25 * Minute\<rparr>,
      [\<lparr>Name = ''Study Session'', Duration = 25 * Minute\<rparr>])"
    using add_splits_name_from_flags
      [of "''add Study Session -m 25''" "[''Study'', ''Session'', ''-m'', ''25'']" 2 "[]"] j
    by (simp add: f1 HasPrefix_def parseDuration_m_25 Minute_def Second_def)
  moreover have "processCommand ''add -m 5'' [] = (InvalidFormat, [])"
    using add_splits_name_from_flags [of "''add -m 5''" "[''-m'', ''5'']" 0 "[]"]
    by (simp add: f2 HasPrefix_def)
  ultimately show ?thesis by simp
qed

section \<open>Decimal numerals and the flag parser\<close>

lemma digitChar_cases:
  assumes "d < 10"
  shows "digitChar d \<in> set ''0123456789''" and "digitVal (digitChar d) = Some d"
proof -
  from assms have "d \<in> {0, 1, 2, 3, 4, 5, 6, 7, 8, 9}" by auto
  then show "digitChar d \<in> set ''0123456789''" and "digitVal (digitChar d) = Some d"
    by (auto simp: digitChar_def digitVal_def)
qed

lemma digitChar_zero: "d < 10 \<Longrightarrow> digitChar d = CHR ''0'' \<longleftrightarrow> d = 0"
proof -
  assume "d < 10"
  then have "d \<in> {0, 1, 2, 3, 4, 5, 6, 7, 8, 9}" by auto
  then show ?thesis by (auto simp: digitChar_def)
qed

lemma set_fmtDigits: "set (fmtDigits n) \<subseteq> set ''0123456789''"
proof (induction n rule: fmtDigits.induct)
  case (1 v)
  show ?case
  proof (cases "v = 0")
    case True
    then show ?thesis by (simp add: fmtDigits.simps)
  next
    case False
    have "digitChar (v mod 10) \<in> set ''0123456789''" by (rule digitChar_cases) simp
    with 1 False show ?thesis by (subst fmtDigits.simps) auto
  qed
qed

lemma fmtDigits_hd: "0 < n \<Longrightarrow> fmtDigits n \<noteq> [] \<and> hd (fmtDigits n) \<noteq> CHR ''0''"
proof (induction n rule: fmtDigits.induct)
  case (1 v)
  show ?case
  proof (cases "v div 10 = 0")
    case True
    with "1.prems" have "v < 10" "v mod 10 = v" by auto
    then have "fmtDigits v = [digitChar v]"
      using "1.prems" True by (simp add: fmtDigits.simps [of v] fmtDigits.simps [of 0])
    with \<open>v < 10\<close> "1.prems" show ?thesis by (simp add: digitChar_zero)
  next
    case False
    with "1.IH" "1.prems" have "fmtDigits (v div 10) \<noteq> [] \<and> hd (fmtDigits (v div 10)) \<noteq> CHR ''0''"
      by simp
    then show ?thesis using "1.prems" by (subst (1 2) fmtDigits.simps) simp
  qed
qed

lemma uintLoop_append:
  "uintLoop b a us (xs @ ys) =
     (case uintLoop b a us xs of Inl e \<Rightarrow> Inl e | Inr (m, us') \<Rightarrow> uintLoop b m us' ys)"
  by (induction xs arbitrary: a us) (auto split: option.splits)

lemma uintLoop_fmtDigits:
  "n \<le> maxUint64 \<Longrightarrow> uintLoop 10 0 False (fmtDigits n) = Inr (n, False)"
proof (induction n rule: fmtDigits.induct)
  case (1 v)
  show ?case
  proof (cases "v = 0")
    case True
    then show ?thesis by (simp add: fmtDigits.simps)
  next
    case False
    have ih: "uintLoop 10 0 False (fmtDigits (v div 10)) = Inr (v div 10, False)"
      using "1.IH" [OF False] "1.prems" by simp
    have d: "digitVal (digitChar (v mod 10)) = Some (v mod 10)"
      by (rule digitChar_cases) simp
    have u: "digitChar (v mod 10) \<noteq> CHR ''_''"
      using digitChar_cases(1) [of "v mod 10"] by auto
    have c: "\<not> maxUint64 div 10 + 1 \<le> v div 10"
      using "1.prems" by (simp add: maxUint64_def)
    have "uintLoop 10 (v div 10) False [digitChar (v mod 10)] = Inr (v, False)"
      using d u c "1.prems" by simp
    then show ?thesis
      using False ih by (subst fmtDigits.simps) (simp add: uintLoop_append)
  qed
qed

lemma ParseUint_fmtInt: "n \<le> maxUint64 \<Longrightarrow> ParseUint (fmtInt n) = Inr n"
proof (cases "n = 0")
  case True
  then show ?thesis by (simp add: fmtInt_def ParseUint_def)
next
  case False
  assume n: "n \<le> maxUint64"
  from False have "fmtDigits n \<noteq> []" "hd (fmtDigits n) \<noteq> CHR ''0''"
    using fmtDigits_hd [of n] by auto
  with False n show ?thesis
    by (simp add: fmtInt_def ParseUint_def uintLoop_fmtDigits)
qed

lemma fmtInt_hd: "fmtInt n \<noteq> [] \<and> hd (fmtInt n) \<in> set ''0123456789''"
proof (cases "n = 0")
  case True
  then show ?thesis by (simp add: fmtInt_def)
next
  case False
  then have ne: "fmtDigits n \<noteq> []" using fmtDigits_hd [of n] by auto
  have "hd (fmtDigits n) \<in> set ''0123456789''"
    using set_fmtDigits [of n] hd_in_set [OF ne] by blast
  then show ?thesis using False ne by (simp add: fmtInt_def)
qed

lemma ParseInt_Itoa:
  assumes "- (2 ^ 63) \<le> v" "v < 2 ^ 63"
  shows "ParseInt (Itoa v) = Inr v"
proof (cases "v < 0")
  case True
  with assms have "nat (- v) \<le> maxUint64" "nat (- v) \<le> 2 ^ 63"
    by (auto simp: maxUint64_def)
  with True show ?thesis
    by (simp add: ParseInt_def Itoa_def ParseUint_fmtInt)
next
  case False
  with assms have le: "nat v \<le> maxUint64" and lt: "nat v < 2 ^ 63"
    by (auto simp: maxUint64_def)
  from fmtInt_hd [of "nat v"] have "hd (fmtInt (nat v)) \<noteq> CHR ''+''" "hd (fmtInt (nat v)) \<noteq> CHR ''-''"
    "fmtInt (nat v) \<noteq> []" by auto
  with False le lt show ?thesis
    by (simp add: ParseInt_def Itoa_def ParseUint_fmtInt)
qed


lemma spaceWidth_first: "c \<notin> set (map hd whiteSpace) \<Longrightarrow> spaceWidth (c # cs) = 0"
  unfolding spaceWidth_zero_iff
proof
  fix w assume c: "c \<notin> set (map hd whiteSpace)" and w: "w \<in> set whiteSpace"
  show "\<not> HasPrefix (c # cs) w"
  proof
    assume "HasPrefix (c # cs) w"
    then obtain r where r: "c # cs = w @ r" by (auto simp: HasPrefix_append)
    from w have "w \<noteq> []" by (auto simp: whiteSpace_def)
    with r have "hd w = c" by (cases w) auto
    with w c show False by force
  qed
qed

lemma noSpace_chars: "set t \<inter> set (map hd whiteSpace) = {} \<Longrightarrow> noSpace t"
  by (induction t) (auto simp: spaceWidth_first)

lemma noSpace_fmtInt: "noSpace (fmtInt n)"
proof -
  have "set (fmtInt n) \<subseteq> set ''0123456789''"
    using set_fmtDigits [of n] by (cases "n = 0") (simp_all add: fmtInt_def)
  moreover have "set ''0123456789'' \<inter> set (map hd whiteSpace) = {}"
    by (simp add: whiteSpace_def)
  ultimately have "set (fmtInt n) \<inter> set (map hd whiteSpace) = {}" by blast
  then show ?thesis by (rule noSpace_chars)
qed

lemma isField_Itoa: "isField (Itoa v)"
proof -
  have "CHR ''-'' \<notin> set (map hd whiteSpace)" by (simp add: whiteSpace_def)
  then have "spaceWidth (CHR ''-'' # fmtInt n) = 0" for n by (rule spaceWidth_first)
  moreover have "fmtInt n \<noteq> []" for n using fmtInt_hd [of n] by simp
  ultimately show ?thesis by (simp add: isField_def Itoa_def noSpace_fmtInt)
qed

lemma isField_flag: "formal f \<Longrightarrow> isField (CHR ''-'' # f)"
proof -
  assume "formal f"
  then consider "f = ''h''" | "f = ''m''" | "f = ''s''" by (auto simp: formal_def)
  then show ?thesis
    by cases (simp_all add: isField_def spaceWidth_def whiteSpace_def HasPrefix_def)
qed

lemma isField_flagTokens:
  "\<forall>(f, v) \<in> set as. formal f \<and> - (2 ^ 63) \<le> v \<and> v < 2 ^ 63 \<Longrightarrow> \<forall>t \<in> set (flagTokens as). isField t"
proof (induction as)
  case Nil
  then show ?case by (simp add: flagTokens_def)
next
  case (Cons a as)
  obtain f v where a: "a = (f, v)" by (cases a)
  with Cons.prems have "formal f" by simp
  then have "isField (CHR ''-'' # f)" by (rule isField_flag)
  moreover have "\<forall>t \<in> set (flagTokens as). isField t" using Cons by simp
  ultimately show ?case using a by (simp add: flagTokens_def isField_Itoa)
qed

lemma parseOne_flag:
  assumes "formal f" "- (2 ^ 63) \<le> v" "v < 2 ^ 63"
  shows "parseOne fv ((CHR ''-'' # f) # Itoa v # rest) = Inr (True, setFlag f v fv, rest)"
  using assms by (auto simp: formal_def parseOne_def splitEquals_def ParseInt_Itoa)

lemma Parse_flagTokens:
  "\<forall>(f, v) \<in> set as. formal f \<and> - (2 ^ 63) \<le> v \<and> v < 2 ^ 63
   \<Longrightarrow> Parse fv (flagTokens as @ rest) = Parse (assigned fv as) rest"
proof (induction as arbitrary: fv)
  case Nil
  then show ?case by (simp add: flagTokens_def assigned_def)
next
  case (Cons a as)
  obtain f v where a: "a = (f, v)" by (cases a)
  with Cons.prems have fv: "formal f" "- (2 ^ 63) \<le> v" "v < 2 ^ 63" by auto
  have tok: "flagTokens (a # as) @ rest = (CHR ''-'' # f) # Itoa v # (flagTokens as @ rest)"
    by (simp add: flagTokens_def a)
  have "Parse fv (flagTokens (a # as) @ rest) = Parse (setFlag f v fv) (flagTokens as @ rest)"
    unfolding tok by (subst Parse.simps) (simp add: parseOne_flag [OF fv])
  also have "\<dots> = Parse (assigned (setFlag f v fv) as) rest"
    using Cons.prems by (intro Cons.IH) simp
  finally show ?case by (simp add: assigned_def a)
qed




lemma wrap64_id: "- (2 ^ 63) \<le> x \<Longrightarrow> x < 2 ^ 63 \<Longrightarrow> wrap64 x = x"
  by (simp add: wrap64_def)

lemma wrap64_add_left: "wrap64 (wrap64 a + b) = wrap64 (a + b)"
  by (simp add: wrap64_def mod_simps add.commute add.left_commute) (simp add: add.assoc)

lemma wrap64_add_right: "wrap64 (a + wrap64 b) = wrap64 (a + b)"
  using wrap64_add_left [of b a] by (simp add: add.commute)

lemma parseDuration_flagTokens:
  assumes "\<forall>(f, v) \<in> set as. formal f \<and> - (2 ^ 63) \<le> v \<and> v < 2 ^ 63"
  shows "parseDuration (Join (flagTokens as) '' '') =
     (let fv = assigned noFlags as in
      if Hours fv < 0 \<or> Minutes fv < 0 \<or> Seconds fv < 0 then Inl NegativeValues
      else Inr (wrap64 ((Hours fv * 3600 + Minutes fv * 60 + Seconds fv) * Second)))"
proof -
  have "Fields (Join (flagTokens as) '' '') = flagTokens as"
    by (rule Fields_Join) (rule isField_flagTokens [OF assms])
  moreover have "Parse noFlags (flagTokens as) = Inr (assigned noFlags as, [])"
    using Parse_flagTokens [OF assms, of noFlags "[]"]
    by (simp add: Parse.simps [of _ "[]"] parseOne_def)
  moreover have "wrap64 (wrap64 (wrap64 (h * Hour) + wrap64 (m * Minute)) + wrap64 (s * Second))
      = wrap64 ((h * 3600 + m * 60 + s) * Second)" for h m s
    by (simp add: wrap64_add_left wrap64_add_right Hour_def Minute_def algebra_simps)
  ultimately show ?thesis by (simp add: parseDuration_def Let_def)
qed

section \<open>The sum of the flags\<close>

text \<open>
  C3, amended. For flags \<open>-h\<close>, \<open>-m\<close>, \<open>-s\<close> written with decimal values, in any order
  and number, a flag that is absent counting 0 and a later value of a flag replacing an
  earlier one: \<open>parseDuration\<close> returns the error for negative values when the hours, the
  minutes or the seconds are negative; otherwise, when hours * 3600 + minutes * 60 +
  seconds is at most 9223372036, it returns exactly that many seconds; beyond that the
  sum does not fit the 64-bit count of nanoseconds and the result is its wrap-around.
  The witness: \<open>-h 1 -m 2 -s 3\<close> is 3723 seconds and \<open>-s -1\<close> is the error.
  The claim as stated, without the bound, fails at \<open>-h 2562048\<close>, which returns a
  negative duration.
\<close>

theorem parseDuration_sums_flags:
  assumes "\<forall>(f, v) \<in> set as. formal f \<and> - (2 ^ 63) \<le> v \<and> v < 2 ^ 63"
  shows "parseDuration (Join (flagTokens as) '' '') =
     (let fv = assigned noFlags as;
          total = Hours fv * 3600 + Minutes fv * 60 + Seconds fv
      in if Hours fv < 0 \<or> Minutes fv < 0 \<or> Seconds fv < 0 then Inl NegativeValues
         else if total \<le> 9223372036 then Inr (total * Second)
         else Inr (wrap64 (total * Second)))"
proof -
  have "wrap64 (t * Second) = t * Second" if "0 \<le> t" "t \<le> 9223372036" for t
    using that by (intro wrap64_id) (simp_all add: Second_def)
  then show ?thesis
    unfolding parseDuration_flagTokens [OF assms] Let_def by auto
qed

lemma flags_1_2_3: "Join (flagTokens [(''h'', 1), (''m'', 2), (''s'', 3)]) '' '' = ''-h 1 -m 2 -s 3''"
  by (simp add: flagTokens_def Itoa_def fmtInt_def fmtDigits.simps digitChar_def)

lemma flags_minus_1: "Join (flagTokens [(''s'', - 1)]) '' '' = ''-s -1''"
  by (simp add: flagTokens_def Itoa_def fmtInt_def fmtDigits.simps digitChar_def)

theorem parseDuration_sums_flags_witness:
  "parseDuration ''-h 1 -m 2 -s 3'' = Inr (3723 * Second) \<and> parseDuration ''-s -1'' = Inl NegativeValues"
proof -
  have "parseDuration ''-h 1 -m 2 -s 3'' = Inr (3723 * Second)"
    using parseDuration_sums_flags [of "[(''h'', 1), (''m'', 2), (''s'', 3)]"]
    by (simp add: flags_1_2_3 formal_def assigned_def setFlag_def noFlags_def)
  moreover have "parseDuration ''-s -1'' = Inl NegativeValues"
    using parseDuration_sums_flags [of "[(''s'', - 1)]"]
    by (simp add: flags_minus_1 formal_def assigned_def setFlag_def noFlags_def)
  ultimately show ?thesis by simp
qed

theorem parseDuration_overflow_counterexample:
  "parseDuration ''-h 2562048'' = Inr (- 9223371273709551616)
   \<and> parseDuration ''-h 2562048'' \<noteq> Inr ((2562048 * 3600 + 0 * 60 + 0) * Second)"
  by (simp add: parseDuration_def string_eval number_eval flag_eval duration_eval)


section \<open>Tokens the flag parser does not read\<close>







section \<open>The queue is first in, first out\<close>



lemma processCommand_appends:
  "processCommand cmd q = (a, q') \<Longrightarrow> q' = q @ accepted [Handled a]"
  by (auto simp: processCommand_def Let_def split: if_splits list.splits sum.splits)






section \<open>Logging at the pop\<close>













section \<open>Commands while a timer runs\<close>

lemma run_snoc: "run w f (evs @ [e]) = step w (run w f evs) e"
  by (simp add: run_def)

text \<open>
  C9. While the loop waits for a running timer, that is after any events that leave it
  not stopped with a task \<open>t\<close> active and before the timer goroutine has closed
  \<open>done\<close>: a line that \<open>processCommand\<close> accepts is handled at once, its task is at the
  tail of the queue, and \<open>t\<close> is still running; a line that is \<open>exit\<close> in any case of
  letters stops the run at once, with no finish of \<open>t\<close> in the trace. The witness: with
  the timer of \<open>add A -s 60\<close> running, \<open>add B -s 5\<close> is queued and \<open>Exit\<close> stops the run.
\<close>

theorem commands_served_while_timer_runs:
  assumes "s = run w f evs" and "\<not> stopped s" and "active s = Some t"
  shows "(\<forall>cmd task q'. processCommand cmd (queue s) = (Added task, q') \<longrightarrow>
            queue (run w f (evs @ [Line cmd])) = queue s @ [task]
            \<and> active (run w f (evs @ [Line cmd])) = Some t
            \<and> \<not> stopped (run w f (evs @ [Line cmd]))
            \<and> trace (run w f (evs @ [Line cmd])) = trace s @ [Handled (Added task)])
       \<and> (\<forall>cmd. ToLower cmd = ''exit'' \<longrightarrow>
            stopped (run w f (evs @ [Line cmd]))
            \<and> trace (run w f (evs @ [Line cmd])) = trace s @ [Handled Exit])"
proof (intro conjI allI impI)
  fix cmd task q'
  assume p: "processCommand cmd (queue s) = (Added task, q')"
  have q': "q' = queue s @ [task]"
    using processCommand_appends [OF p] by simp
  have st: "run w f (evs @ [Line cmd]) = dispatch cmd s"
    using assms by (simp add: run_snoc step_def)
  show "queue (run w f (evs @ [Line cmd])) = queue s @ [task]"
    and "active (run w f (evs @ [Line cmd])) = Some t"
    and "\<not> stopped (run w f (evs @ [Line cmd]))"
    and "trace (run w f (evs @ [Line cmd])) = trace s @ [Handled (Added task)]"
    using assms(3) by (simp_all add: st dispatch_def p q')
next
  fix cmd
  assume e: "ToLower cmd = ''exit''"
  have p: "processCommand cmd (queue s) = (Exit, queue s)"
    using e by (simp add: processCommand_def)
  have st: "run w f (evs @ [Line cmd]) = dispatch cmd s"
    using assms by (simp add: run_snoc step_def)
  show "stopped (run w f (evs @ [Line cmd]))"
    and "trace (run w f (evs @ [Line cmd])) = trace s @ [Handled Exit]"
    by (simp_all add: st dispatch_def p)
qed

lemma add_A_60:
  "processCommand ''add A -s 60'' [] =
     (Added \<lparr>Name = ''A'', Duration = 60 * Second\<rparr>, [\<lparr>Name = ''A'', Duration = 60 * Second\<rparr>])"
  by (simp add: processCommand_def parseDuration_def string_eval number_eval flag_eval duration_eval Let_def)

lemma add_B_5:
  "processCommand ''add B -s 5'' [] =
     (Added \<lparr>Name = ''B'', Duration = 5 * Second\<rparr>, [\<lparr>Name = ''B'', Duration = 5 * Second\<rparr>])"
  by (simp add: processCommand_def parseDuration_def string_eval number_eval flag_eval duration_eval Let_def)

lemma first_task_running:
  "\<not> stopped (run exampleWorld Missing [Line ''add A -s 60''])"
  "active (run exampleWorld Missing [Line ''add A -s 60'']) = Some \<lparr>Name = ''A'', Duration = 60 * Second\<rparr>"
  "queue (run exampleWorld Missing [Line ''add A -s 60'']) = []"
  by (simp_all add: run_def initial_def step_def dispatch_def nextTask_def add_A_60 case_prod_beta)

theorem commands_served_while_timer_runs_witness:
  "queue (run exampleWorld Missing [Line ''add A -s 60'', Line ''add B -s 5''])
     = [\<lparr>Name = ''B'', Duration = 5 * Second\<rparr>]
   \<and> active (run exampleWorld Missing [Line ''add A -s 60'', Line ''add B -s 5''])
     = Some \<lparr>Name = ''A'', Duration = 60 * Second\<rparr>
   \<and> \<not> stopped (run exampleWorld Missing [Line ''add A -s 60'', Line ''add B -s 5''])
   \<and> stopped (run exampleWorld Missing [Line ''add A -s 60'', Line ''Exit''])"
proof -
  have e: "ToLower ''Exit'' = ''exit''"
    by (simp add: lowerASCII_def)
  show ?thesis
    using commands_served_while_timer_runs
      [OF refl first_task_running(1) first_task_running(2)] add_B_5 e
    by (simp add: first_task_running(3))
qed

section \<open>The ticks of a timer\<close>

lemma mod_between:
  fixes x :: int
  assumes "j * m \<le> x" "x < j * m + m"
  shows "x mod m = x - j * m"
proof -
  have "(x + (- j) * m) mod m = x mod m" by (rule mod_mult_self1)
  moreover have "(x + (- j) * m) mod m = x + (- j) * m"
    using assms by (intro mod_pos_pos_trivial) simp_all
  ultimately show ?thesis by simp
qed

lemma Round_near:
  assumes "0 \<le> j" "j * Second < 2 ^ 63" "\<bar>x - j * Second\<bar> < Second div 2"
  shows "Round x Second = j * Second"
proof -
  let ?S = "1000000000 :: int"
  have S: "Second = ?S" by (simp add: Second_def)
  from assms have j: "0 \<le> j" "j * ?S < 2 ^ 63" and near: "j * ?S - 500000000 < x" "x < j * ?S + 500000000"
    by (simp_all add: S abs_less_iff)
  show ?thesis
  proof (cases "j = 0")
    case True
    with near have small: "- 500000000 < x" "x < 500000000" by simp_all
    have w0: "wrap64 0 = 0" by (simp add: wrap64_def)
    show ?thesis
    proof (cases "x < 0")
      case neg: True
      then have "\<bar>x\<bar> = - x" by simp
      moreover have "(- x) mod ?S = - x" using neg small by (intro mod_pos_pos_trivial) simp_all
      ultimately have r: "\<bar>x\<bar> mod ?S = - x" by simp
      have "- x + - x < ?S" using small by simp
      then show ?thesis
        using neg True unfolding Round_def Let_def S r by (simp add: w0)
    next
      case pos: False
      then have "\<bar>x\<bar> = x" by simp
      moreover have "x mod ?S = x" using pos small by (intro mod_pos_pos_trivial) simp_all
      ultimately have r: "\<bar>x\<bar> mod ?S = x" by simp
      have "x + x < ?S" using small by simp
      then show ?thesis
        using pos True unfolding Round_def Let_def S r by (simp add: w0)
    qed
  next
    case False
    with j have j1: "1 \<le> j" by simp
    then have "?S \<le> j * ?S" by simp
    with near have x0: "0 < x" by simp
    show ?thesis
    proof (cases "j * ?S \<le> x")
      case True
      then have r: "x mod ?S = x - j * ?S"
        using near by (intro mod_between) simp_all
      have "wrap64 (j * ?S) = j * ?S"
        using j j1 by (intro wrap64_id) simp_all
      then show ?thesis
        using x0 near True by (simp add: Round_def S r Let_def)
    next
      case False
      have r: "x mod ?S = x - (j - 1) * ?S"
        using near False by (intro mod_between) (simp_all add: algebra_simps)
      have w: "wrap64 (j * ?S) = j * ?S"
        using j j1 by (intro wrap64_id) simp_all
      have "x + ?S - (x - (j - 1) * ?S) = j * ?S" by (simp add: algebra_simps)
      then show ?thesis
        using x0 near False w by (simp add: Round_def S r Let_def algebra_simps)
    qed
  qed
qed


lemma Until_in_range:
  "- (2 ^ 63) \<le> endTime - now \<Longrightarrow> endTime - now < 2 ^ 63 \<Longrightarrow> Until endTime now = endTime - now"
  by (simp add: Until_def minDuration_def maxDuration_def)

lemma timerLoop_on_time:
  assumes "0 < m" "int m * Second < 2 ^ 63" "m \<le> length ts"
    and "\<forall>k < m. \<bar>endTime - ts ! k - int (m - 1 - k) * Second\<bar> < Second div 2"
  shows "timerLoop task endTime ts =
           map (\<lambda>k. Remaining task (int (m - 1 - k) * Second)) [0..<m - 1] @ [Completed task]"
  using assms
proof (induction m arbitrary: ts)
  case 0
  then show ?case by simp
next
  case (Suc m)
  from Suc.prems(3) obtain t ts' where ts: "ts = t # ts'" by (cases ts) auto
  from Suc.prems(4) have near: "\<bar>endTime - t - int m * Second\<bar> < Second div 2"
    by (auto simp: ts dest: spec [of _ 0])
  then have lo: "int m * Second - Second div 2 < endTime - t" and hi: "endTime - t < int m * Second + Second div 2"
    by (simp_all add: abs_less_iff)
  have mS: "int m * Second < 2 ^ 63" "int m * Second + Second < 2 ^ 63"
    using Suc.prems(2) by (simp_all add: algebra_simps Second_def)
  have "- (2 ^ 63) \<le> endTime - t" "endTime - t < 2 ^ 63"
    using lo hi mS by (simp_all add: Second_def)
  then have u: "Until endTime t = endTime - t" by (rule Until_in_range)
  have r: "Round (endTime - t) Second = int m * Second"
    using near mS(1) by (intro Round_near) simp_all
  show ?case
  proof (cases m)
    case 0
    then show ?thesis by (simp add: ts u r)
  next
    case (Suc m')
    have "timerLoop task endTime ts' =
        map (\<lambda>k. Remaining task (int (m - 1 - k) * Second)) [0..<m - 1] @ [Completed task]"
    proof (rule Suc.IH)
      show "0 < m" using Suc by simp
      show "int m * Second < 2 ^ 63" by (rule mS(1))
      show "m \<le> length ts'" using Suc.prems(3) ts by simp
      show "\<forall>k < m. \<bar>endTime - ts' ! k - int (m - 1 - k) * Second\<bar> < Second div 2"
      proof (intro allI impI)
        fix k assume k: "k < m"
        then have "\<bar>endTime - ts ! Suc k - int (Suc m - 1 - Suc k) * Second\<bar> < Second div 2"
          using Suc.prems(4) by (metis Suc_less_eq)
        then show "\<bar>endTime - ts' ! k - int (m - 1 - k) * Second\<bar> < Second div 2"
          by (simp add: ts)
      qed
    qed
    moreover have "0 < int m * Second" using Suc by (simp add: Second_def)
    moreover have "[0..<Suc m - 1] = 0 # map Suc [0..<m - 1]"
      using Suc by (simp add: upt_conv_Cons map_Suc_upt del: upt_Suc)
    ultimately show ?thesis
      by (simp add: ts u r comp_def)
  qed
qed

lemma timerLoop_completes_once:
  "count_list (timerLoop task endTime ts) (Completed task) \<le> 1
   \<and> (Completed task \<in> set (timerLoop task endTime ts) \<longrightarrow> last (timerLoop task endTime ts) = Completed task)"
  by (induction ts) (auto simp: Let_def)

text \<open>
  C6, amended. A timer of \<open>n\<close> seconds whose first \<open>n\<close> ticks come each within half a
  second of its due time (one second after the start, two seconds, and so on) shows
  \<open>n - 1\<close> remaining times, \<open>n - 1\<close> seconds down to 1 second, one per tick and each
  smaller than the one before, and on tick \<open>n\<close> prints its one completion notice and
  returns. Whatever the ticks, a completion notice is printed at most once and nothing
  follows it. The witness is the timer of 3 seconds of the claim, with jitter: two
  progress notices (2 s, 1 s), then the completion on the third tick. The claim as
  stated counts three progress notices before the completion; there are two.
\<close>

theorem timer_counts_down_each_second:
  assumes "0 < n" "int n * Second < 2 ^ 63" "n \<le> length ticks"
    and "\<forall>k < n. \<bar>ticks ! k - (start + (int k + 1) * Second)\<bar> < Second div 2"
  shows "startTimer task (int n * Second) start ticks =
           Starting task (int n * Second)
           # map (\<lambda>k. Remaining task (int (n - 1 - k) * Second)) [0..<n - 1] @ [Completed task]
         \<and> (\<forall>ticks'. count_list (startTimer task (int n * Second) start ticks') (Completed task) \<le> 1
              \<and> (Completed task \<in> set (startTimer task (int n * Second) start ticks')
                   \<longrightarrow> last (startTimer task (int n * Second) start ticks') = Completed task))"
proof
  have "\<forall>k < n. \<bar>start + int n * Second - ticks ! k - int (n - 1 - k) * Second\<bar> < Second div 2"
  proof (intro allI impI)
    fix k assume k: "k < n"
    then have "int (n - 1 - k) = int n - 1 - int k" by simp
    then have e: "start + int n * Second - ticks ! k - int (n - 1 - k) * Second
        = - (ticks ! k - (start + (int k + 1) * Second))"
      by (simp add: algebra_simps)
    have "\<bar>ticks ! k - (start + (int k + 1) * Second)\<bar> < Second div 2"
      using assms(4) k by blast
    then show "\<bar>start + int n * Second - ticks ! k - int (n - 1 - k) * Second\<bar> < Second div 2"
      unfolding e by (simp only: abs_minus_cancel)
  qed
  then have "timerLoop task (start + int n * Second) ticks =
      map (\<lambda>k. Remaining task (int (n - 1 - k) * Second)) [0..<n - 1] @ [Completed task]"
    using assms(1-3) by (intro timerLoop_on_time) simp_all
  moreover have "Round (int n * Second) Second = int n * Second"
    using assms(2) by (intro Round_near) (simp_all add: Second_def)
  ultimately show "startTimer task (int n * Second) start ticks =
      Starting task (int n * Second)
      # map (\<lambda>k. Remaining task (int (n - 1 - k) * Second)) [0..<n - 1] @ [Completed task]"
    by (simp add: startTimer_def)
next
  show "\<forall>ticks'. count_list (startTimer task (int n * Second) start ticks') (Completed task) \<le> 1
      \<and> (Completed task \<in> set (startTimer task (int n * Second) start ticks')
           \<longrightarrow> last (startTimer task (int n * Second) start ticks') = Completed task)"
    using timerLoop_completes_once [of task "start + int n * Second"]
    by (auto simp: startTimer_def)
qed

theorem timer_counts_down_each_second_witness:
  "startTimer ''T'' (3 * Second) 0 [1000000100, 2000000050, 3000000700, 4000000000] =
     [Starting ''T'' (3 * Second), Remaining ''T'' (2 * Second), Remaining ''T'' Second, Completed ''T'']"
proof -
  have "\<forall>k < (3::nat). \<bar>[1000000100, 2000000050, 3000000700, 4000000000] ! k - (0 + (int k + 1) * Second)\<bar>
      < Second div 2"
    by (simp add: Second_def less_Suc_eq numeral_3_eq_3)
  then show ?thesis
    using timer_counts_down_each_second [of 3 "[1000000100, 2000000050, 3000000700, 4000000000]" 0 "''T''"]
    by (simp add: Second_def upt_rec numeral_3_eq_3)
qed

theorem three_progress_notices_counterexample:
  "startTimer ''T'' (3 * Second) 0 [Second, 2 * Second, 3 * Second] =
     [Starting ''T'' (3 * Second), Remaining ''T'' (2 * Second), Remaining ''T'' Second, Completed ''T'']
   \<and> length (remainings (startTimer ''T'' (3 * Second) 0 [Second, 2 * Second, 3 * Second])) \<noteq> 3"
  by (simp add: startTimer_def Until_def Round_def duration_eval)

end
